theory Spec2Isabelle
  imports Main "HOL-Library.Sublist"
begin

section \<open>The notebook in-context-learning.ipynb\<close>

text \<open>
  The notebook is a straight-line script of six code cells over one global list
  \<open>papers\<close> of dictionaries. Everything it computes goes through library calls
  (requests, BeautifulSoup, urllib, pypdf, the Gemini client, the file system, IPython's
  display). The libraries are not part of the notebook: what their calls answer is a
  parameter of the model (the record \<open>env\<close> below), and every exception they can raise
  is a value of type \<open>error\<close>.

  Strings are \<open>string\<close>, so characters are the 8-bit range of Python's \<open>str\<close>.
\<close>

subsection \<open>Exceptions\<close>

datatype error =
    KeyError string
  | AttributeError string
  | FileNotFoundError string
  | LibraryError string

subsection \<open>The methods of \<open>str\<close> the notebook calls\<close>

definition LF :: char where
  "LF = CHR 0x0A"

definition CR :: char where
  "CR = CHR 0x0D"

text \<open>\<open>str.isspace\<close> on one character (code points below 256).\<close>

definition isspace :: "char \<Rightarrow> bool" where
  "isspace c = (c \<in> {CHR 0x09, CHR 0x0A, CHR 0x0B, CHR 0x0C, CHR 0x0D,
                      CHR 0x1C, CHR 0x1D, CHR 0x1E, CHR 0x1F, CHR 0x20, CHR 0x85, CHR 0xA0})"

text \<open>The line boundaries of \<open>str.splitlines\<close> (code points below 256).\<close>

definition is_linebreak :: "char \<Rightarrow> bool" where
  "is_linebreak c = (c \<in> {CHR 0x0A, CHR 0x0B, CHR 0x0C, CHR 0x0D,
                           CHR 0x1C, CHR 0x1D, CHR 0x1E, CHR 0x85})"

text \<open>\<open>s.strip()\<close>: leading and trailing whitespace removed.\<close>

definition strip :: "string \<Rightarrow> string" where
  "strip s = rev (dropWhile isspace (rev (dropWhile isspace s)))"

text \<open>
  \<open>s.splitlines()\<close>: the lines of \<open>s\<close> without their boundaries; \<open>\r\n\<close> is one
  boundary; a final boundary opens no empty last line. The first argument is the line
  read so far.
\<close>

fun splitlines_from :: "string \<Rightarrow> string \<Rightarrow> string list" where
  "splitlines_from cur [] = (if cur = [] then [] else [cur])"
| "splitlines_from cur [c] =
     (if is_linebreak c then [cur] else [cur @ [c]])"
| "splitlines_from cur (c # d # s) =
     (if c = CR \<and> d = LF then cur # splitlines_from [] s
      else if is_linebreak c then cur # splitlines_from [] (d # s)
      else splitlines_from (cur @ [c]) (d # s))"

definition splitlines :: "string \<Rightarrow> string list" where
  "splitlines s = splitlines_from [] s"

text \<open>
  \<open>s.split(sep)\<close> for a non-empty separator: the pieces between the occurrences of
  \<open>sep\<close>, found from the left without overlap (Python raises ValueError on an empty
  separator; the notebook's only separator is two spaces). The second argument is the
  piece read so far.
\<close>

function split_from :: "string \<Rightarrow> string \<Rightarrow> string \<Rightarrow> string list" where
  "split_from sep cur [] = [cur]"
| "split_from sep cur (c # s) =
     (if sep \<noteq> [] \<and> prefix sep (c # s)
      then cur # split_from sep [] (drop (length sep) (c # s))
      else split_from sep (cur @ [c]) s)"
  by pat_completeness auto
termination
  by (relation "measure (\<lambda>(sep, cur, s). length s)") auto

definition split :: "string \<Rightarrow> string \<Rightarrow> string list" where
  "split sep s = split_from sep [] s"

text \<open>\<open>sep.join(xs)\<close>.\<close>

fun join :: "string \<Rightarrow> string list \<Rightarrow> string" where
  "join sep [] = []"
| "join sep [x] = x"
| "join sep (x # y # ys) = x @ sep @ join sep (y # ys)"

text \<open>
  \<open>s.replace(old, new)\<close>: every occurrence of \<open>old\<close>, found from the left without
  overlap, becomes \<open>new\<close>; with an empty \<open>old\<close>, \<open>new\<close> goes before every character
  and at the end.
\<close>

function (sequential) replace :: "string \<Rightarrow> string \<Rightarrow> string \<Rightarrow> string" where
  "replace [] new s = new @ concat (map (\<lambda>c. c # new) s)"
| "replace old new [] = []"
| "replace old new (c # s) =
     (if prefix old (c # s) then new @ replace old new (drop (length old) (c # s))
      else c # replace old new s)"
  by pat_completeness auto
termination
  by (relation "measure (\<lambda>(old, new, s). length s)") auto

subsection \<open>The parsed document (BeautifulSoup)\<close>

text \<open>
  A parsed page is a tree of tags and strings. \<open>find_all\<close> answers the matching tags
  below a node in document order, \<open>find\<close> the first of them or \<open>None\<close>,
  \<open>get_text\<close> (the property \<open>.text\<close>) all strings below a node concatenated, and
  \<open>tag[key]\<close> raises KeyError when the tag has no such attribute.
\<close>

datatype node =
    NavigableString string
  | Tag string "(string \<times> string) list" "node list"

fun descendants :: "node \<Rightarrow> node list" where
  "descendants (NavigableString s) = []"
| "descendants (Tag name attrs children) = concat (map (\<lambda>c. c # descendants c) children)"

fun is_tag :: "string list \<Rightarrow> node \<Rightarrow> bool" where
  "is_tag names (NavigableString s) = False"
| "is_tag names (Tag name attrs children) = (name \<in> set names)"

definition find_all :: "string list \<Rightarrow> node \<Rightarrow> node list" where
  "find_all names n = filter (is_tag names) (descendants n)"

definition find :: "string \<Rightarrow> node \<Rightarrow> node option" where
  "find name n = (case find_all [name] n of [] \<Rightarrow> None | t # ts \<Rightarrow> Some t)"

fun get_text :: "node \<Rightarrow> string" where
  "get_text (NavigableString s) = s"
| "get_text (Tag name attrs children) = concat (map get_text children)"

fun getitem :: "node \<Rightarrow> string \<Rightarrow> error + string" where
  "getitem (NavigableString s) key = Inl (AttributeError key)"
| "getitem (Tag name attrs children) key =
     (case map_of attrs key of None \<Rightarrow> Inl (KeyError key) | Some v \<Rightarrow> Inr v)"

text \<open>
  The net effect of \<open>for script in soup(names): script.extract()\<close>: every tag with
  one of the names leaves the tree, with all it contains.
\<close>

fun extract_all :: "string list \<Rightarrow> node \<Rightarrow> node" where
  "extract_all names (NavigableString s) = NavigableString s"
| "extract_all names (Tag name attrs children) =
     Tag name attrs (map (extract_all names) (filter (\<lambda>c. \<not> is_tag names c) children))"

subsection \<open>The outside world\<close>

text \<open>
  A network call is answered by the outside world. Its answer may depend on everything
  the run has asked so far, so each answering function takes the list of earlier calls
  (\<open>calls\<close>, oldest first), and the run appends each call it makes. Nothing else is
  assumed of the answers.
\<close>

datatype call =
    Get string
  | Urlopen string
  | Urlretrieve string string
  | GenerateContent string string

text \<open>What a cell shows below itself: \<open>print\<close> and \<open>display(Markdown(...))\<close>.\<close>

datatype shown = Printed string | Markdown string

text \<open>
  \<^item> \<open>requests_get\<close>: \<open>requests.get(url).content\<close>, or the exception raised;
  \<^item> \<open>urlopen_read\<close>: \<open>urlopen(url).read()\<close>, or the exception raised;
  \<^item> \<open>urlretrieve\<close>: the bytes \<open>urlretrieve(url, filename)\<close> left in the file
    (\<open>None\<close> when it did not get as far as opening it) and the exception raised, if any;
  \<^item> \<open>BeautifulSoup\<close>: the tree the parser builds (html.parser accepts any input);
  \<^item> \<open>PdfReader\<close>: \<open>PdfReader(file).pages\<close> for the bytes of the file, or the
    exception raised;
  \<^item> \<open>extract_text\<close>: \<open>page.extract_text()\<close>, or the exception raised;
  \<^item> \<open>generate_content\<close>: \<open>genai.GenerativeModel(name).generate_content(prompt).text\<close>,
    or the exception raised;
  \<^item> \<open>today\<close>: \<open>str(date.today())\<close>.
\<close>

record 'page env =
  requests_get :: "call list \<Rightarrow> string \<Rightarrow> error + string"
  urlopen_read :: "call list \<Rightarrow> string \<Rightarrow> error + string"
  urlretrieve :: "call list \<Rightarrow> string \<Rightarrow> string option \<times> error option"
  BeautifulSoup :: "string \<Rightarrow> node"
  PdfReader :: "string \<Rightarrow> error + 'page list"
  extract_text :: "'page \<Rightarrow> error + string"
  generate_content :: "call list \<Rightarrow> string \<Rightarrow> string \<Rightarrow> error + string"
  today :: string

subsection \<open>The state of a run\<close>

text \<open>
  A paper is a dictionary from field names to strings. Discovery builds one new
  dictionary per heading, so no two entries of the list are the same object and the list
  is modelled as a list of values. The state of a run is the global list \<open>papers\<close>,
  the files of the working directory, the calls made so far and what the cells have
  shown.
\<close>

type_synonym paper = "string \<rightharpoonup> string"

record state =
  papers :: "paper list"
  files :: "string \<rightharpoonup> string"
  calls :: "call list"
  shown :: "shown list"

text \<open>\<open>open(name, "w").write(data)\<close> and \<open>open(name, "a").write(data)\<close>.\<close>

definition write_file :: "string \<Rightarrow> string \<Rightarrow> (string \<rightharpoonup> string) \<Rightarrow> (string \<rightharpoonup> string)" where
  "write_file name data fs = fs(name \<mapsto> data)"


subsection \<open>Cell 5: discovery\<close>

definition BASE_URL :: string where
  "BASE_URL = ''https://huggingface.co/papers''"

text \<open>
  The loop \<open>for h3 in h3s\<close>, appending to \<open>papers\<close>. \<open>h3.find("a")\<close> is \<open>None\<close>
  when the heading has no anchor, and \<open>a.text\<close> then raises AttributeError; the list
  keeps what was appended before an exception.
\<close>

fun discover :: "node list \<Rightarrow> paper list \<Rightarrow> error option \<times> paper list" where
  "discover [] ps = (None, ps)"
| "discover (h3 # h3s) ps =
     (case find ''a'' h3 of
        None \<Rightarrow> (Some (AttributeError ''text''), ps)
      | Some a \<Rightarrow>
          (let title = get_text a in
           case getitem a ''href'' of
             Inl e \<Rightarrow> (Some e, ps)
           | Inr href \<Rightarrow>
               (let link = replace ''/papers'' [] href in
                discover h3s
                  (ps @ [[''title'' \<mapsto> title, ''url'' \<mapsto> ''https://arxiv.org/pdf'' @ link]]))))"

definition discovery :: "'page env \<Rightarrow> state \<Rightarrow> error option \<times> state" where
  "discovery env st =
     (let st1 = st\<lparr>calls := calls st @ [Get BASE_URL]\<rparr> in
      case requests_get env (calls st) BASE_URL of
        Inl e \<Rightarrow> (Some e, st1)
      | Inr content \<Rightarrow>
          (let soup = BeautifulSoup env content;
               h3s = find_all [''h3''] soup;
               (err, ps) = discover h3s []
           in (err, st1\<lparr>papers := ps\<rparr>)))"

subsection \<open>Cell 6: the extractors\<close>

text \<open>The three text-cleaning lines of \<open>extract_paper\<close>.\<close>

definition clean_text :: "string \<Rightarrow> string" where
  "clean_text text =
     (let lines = map strip (splitlines text);
          chunks = concat (map (\<lambda>line. map strip (split ''  '' line)) lines)
      in join [LF] (filter (\<lambda>chunk. chunk \<noteq> []) chunks))"

definition extract_paper :: "'page env \<Rightarrow> string \<Rightarrow> state \<Rightarrow> (error + string) \<times> state" where
  "extract_paper env url st =
     (let st1 = st\<lparr>calls := calls st @ [Urlopen url]\<rparr> in
      case urlopen_read env (calls st) url of
        Inl e \<Rightarrow> (Inl e, st1)
      | Inr html \<Rightarrow>
          (let soup = BeautifulSoup env html;
               soup = extract_all [''script'', ''style''] soup;
               text = get_text soup
           in (Inr (clean_text text), st1)))"

text \<open>The loop \<open>for page in reader.pages: text += page.extract_text() + "\n"\<close>.\<close>

fun pages_text :: "'page env \<Rightarrow> 'page list \<Rightarrow> string \<Rightarrow> error + string" where
  "pages_text env [] text = Inr text"
| "pages_text env (page # pages) text =
     (case extract_text env page of
        Inl e \<Rightarrow> Inl e
      | Inr t \<Rightarrow> pages_text env pages (text @ t @ [LF]))"

definition extract_pdf :: "'page env \<Rightarrow> string \<Rightarrow> state \<Rightarrow> (error + string) \<times> state" where
  "extract_pdf env url st =
     (let (written, raised) = urlretrieve env (calls st) url;
          st1 = st\<lparr>calls := calls st @ [Urlretrieve url ''pdf_file.pdf''],
                   files := (case written of
                               None \<Rightarrow> files st
                             | Some bytes \<Rightarrow> write_file ''pdf_file.pdf'' bytes (files st))\<rparr>
      in case raised of
           Some e \<Rightarrow> (Inl e, st1)
         | None \<Rightarrow>
             (case files st1 ''pdf_file.pdf'' of
                None \<Rightarrow> (Inl (FileNotFoundError ''pdf_file.pdf''), st1)
              | Some bytes \<Rightarrow>
                  (case PdfReader env bytes of
                     Inl e \<Rightarrow> (Inl e, st1)
                   | Inr pages \<Rightarrow> (pages_text env pages [], st1))))"

subsection \<open>Cells 7 and 8: the summarization loop\<close>

definition LLM :: string where
  "LLM = ''gemini-1.5-flash''"

definition INSTRUCTION :: string where
  "INSTRUCTION = ''Summarize this research article into one paragraph without formatting highlighting its strengths and weaknesses. ''"

text \<open>
  The right-hand side of the assignment inside \<open>try\<close>: \<open>paper["url"]\<close>, then
  \<open>extract_pdf\<close>, then the call of the model with the instruction and the text.
\<close>

definition summarize :: "'page env \<Rightarrow> paper \<Rightarrow> state \<Rightarrow> (error + string) \<times> state" where
  "summarize env paper st =
     (case paper ''url'' of
        None \<Rightarrow> (Inl (KeyError ''url''), st)
      | Some url \<Rightarrow>
          (case extract_pdf env url st of
             (Inl e, st1) \<Rightarrow> (Inl e, st1)
           | (Inr text, st1) \<Rightarrow>
               (let prompt = INSTRUCTION @ text in
                (generate_content env (calls st1) LLM prompt,
                 st1\<lparr>calls := calls st1 @ [GenerateContent LLM prompt]\<rparr>))))"

text \<open>One turn of the loop: \<open>try\<close> the assignment, and on any exception print and
  store the placeholder.\<close>

definition summarize_paper :: "'page env \<Rightarrow> paper \<Rightarrow> state \<Rightarrow> paper \<times> state" where
  "summarize_paper env paper st =
     (case summarize env paper st of
        (Inr text, st1) \<Rightarrow> (paper(''summary'' \<mapsto> text), st1)
      | (Inl e, st1) \<Rightarrow>
          (paper(''summary'' \<mapsto> ''Paper not available''),
           st1\<lparr>shown := shown st1 @ [Printed ''Generation failed'']\<rparr>))"

text \<open>
  \<open>for paper in tqdm(papers)\<close>: the papers in order, each dictionary updated in place
  (the progress bar goes to stderr and is left out). The loop leaves the state's own
  \<open>papers\<close> to the cell, which stores the updated list.
\<close>

fun summarize_papers :: "'page env \<Rightarrow> paper list \<Rightarrow> state \<Rightarrow> paper list \<times> state" where
  "summarize_papers env [] st = ([], st)"
| "summarize_papers env (paper # rest) st =
     (let (paper1, st1) = summarize_paper env paper st;
          (rest1, st2) = summarize_papers env rest st1
      in (paper1 # rest1, st2))"

definition summarization :: "'page env \<Rightarrow> state \<Rightarrow> state" where
  "summarization env st =
     (let (ps, st1) = summarize_papers env (papers st) st in st1\<lparr>papers := ps\<rparr>)"

subsection \<open>Cell 12: the HTML sink\<close>






subsection \<open>Cell 14: the markdown sink\<close>





subsection \<open>A sample run\<close>

text \<open>
  One world to run the cells in: the listing page has one entry (title Foo, link
  /papers/1234); every other page is a script, a paragraph, a style sheet and some loose
  text; the PDF of paper 1234 has the two pages Hello and World; the download of paper
  404 fails; the model refuses the paper 5678 and answers every other prompt.
\<close>

definition sample_soup :: node where
  "sample_soup =
     Tag ''[document]'' []
       [Tag ''h3'' [] [Tag ''a'' [(''href'', ''/papers/1234'')] [NavigableString ''Foo'']]]"

definition sample_page :: node where
  "sample_page =
     Tag ''[document]'' []
       [Tag ''script'' [] [NavigableString ''var x;''],
        Tag ''p'' [] [NavigableString ''  Hello  big   world ''],
        NavigableString [LF, LF],
        Tag ''style'' [] [NavigableString ''p {}''],
        NavigableString ''  bye'']"

definition sample_env :: "string env" where
  "sample_env =
     \<lparr>requests_get = (\<lambda>asked url. Inr ''<h3><a href=/papers/1234>Foo</a></h3>''),
      urlopen_read = (\<lambda>asked url. Inr ''<page>''),
      urlretrieve = (\<lambda>asked url.
         if url = ''https://arxiv.org/pdf/404'' then (None, Some (LibraryError ''HTTP Error 404''))
         else (Some url, None)),
      BeautifulSoup = (\<lambda>markup. if markup = ''<page>'' then sample_page else sample_soup),
      PdfReader = (\<lambda>bytes.
         if bytes = ''https://arxiv.org/pdf/1234'' then Inr [''Hello'', ''World'']
         else Inr [bytes]),
      extract_text = (\<lambda>page. Inr page),
      generate_content = (\<lambda>asked name prompt.
         if asked \<noteq> [] \<and> last asked = Urlretrieve ''https://arxiv.org/pdf/5678'' ''pdf_file.pdf''
         then Inl (LibraryError ''quota exceeded'')
         else Inr ''A good paper.''),
      today = ''2024-11-05''\<rparr>"

definition sample_bar :: paper where
  "sample_bar = [''title'' \<mapsto> ''Bar'', ''url'' \<mapsto> ''https://arxiv.org/pdf/5678'']"

definition sample_baz :: paper where
  "sample_baz = [''title'' \<mapsto> ''Baz'', ''url'' \<mapsto> ''https://arxiv.org/pdf/404'']"

definition sample_foo :: paper where
  "sample_foo = [''title'' \<mapsto> ''Foo'', ''url'' \<mapsto> ''https://arxiv.org/pdf/1234'']"

definition sample_papers :: "paper list" where
  "sample_papers = [sample_bar, sample_baz, sample_foo]"

definition sample_state :: state where
  "sample_state = \<lparr>papers = sample_papers, files = Map.empty, calls = [], shown = []\<rparr>"


subsection \<open>Notions of the specification\<close>

text \<open>
  A heading of the listing is well formed when it holds an anchor that has an href.
\<close>

definition well_formed :: "node \<Rightarrow> bool" where
  "well_formed h3 =
     (case find ''a'' h3 of
        None \<Rightarrow> False
      | Some a \<Rightarrow> (case getitem a ''href'' of Inl e \<Rightarrow> False | Inr href \<Rightarrow> True))"

text \<open>
  The path suffix as the specification words it: the href without its leading
  \<open>/papers\<close>.
\<close>

definition spec_path_suffix :: "string \<Rightarrow> string" where
  "spec_path_suffix href =
     (if prefix ''/papers'' href then drop (length ''/papers'') href else href)"

text \<open>A heading whose link holds \<open>/papers\<close> twice.\<close>

definition sample_h3 :: node where
  "sample_h3 = Tag ''h3'' [] [Tag ''a'' [(''href'', ''/papers/papers1'')] [NavigableString ''Qux'']]"

text \<open>The instruction as the specification quotes it.\<close>

definition spec_INSTRUCTION :: string where
  "spec_INSTRUCTION = ''Summarize this research article into one paragraph without formatting, highlighting strengths and weaknesses.''"

section \<open>Properties\<close>

subsection \<open>PDF extraction\<close>

lemma pages_text_ok:
  "map (extract_text env) pages = map Inr texts \<Longrightarrow>
   pages_text env pages acc = Inr (acc @ concat (map (\<lambda>t. t @ [LF]) texts))"
proof (induction pages arbitrary: texts acc)
  case Nil
  then show ?case by simp
next
  case (Cons page pages)
  then obtain t ts where ts: "texts = t # ts" "extract_text env page = Inr t"
    "map (extract_text env) pages = map Inr ts"
    by (cases texts) auto
  from Cons.IH [OF ts(3)] ts show ?case by simp
qed

lemma concat_newlines_join:
  "texts \<noteq> [] \<Longrightarrow> concat (map (\<lambda>t. t @ [LF]) texts) = join [LF] texts @ [LF]"
  by (induction texts rule: join.induct [of _ "[LF]"]) auto

lemma length_concat_newlines:
  "length (concat (map (\<lambda>t. t @ [LF]) texts)) = sum_list (map length texts) + length texts"
  by (induction texts) auto

text \<open>
  C3. When the download succeeds, the file parses into the pages \<open>pages\<close> and every
  page gives its text, \<open>extract_pdf\<close> returns the texts in page order with one newline
  after each: for a PDF with at least one page that is the texts joined by single
  newlines plus a final newline, and the result holds as many newlines beyond the texts'
  own characters as the PDF has pages.
\<close>

theorem extract_pdf_pages:
  assumes "urlretrieve env (calls st) url = (Some bytes, None)"
    and "PdfReader env bytes = Inr pages"
    and "map (extract_text env) pages = map Inr texts"
  shows "fst (extract_pdf env url st) = Inr (concat (map (\<lambda>t. t @ [LF]) texts))
       \<and> concat (map (\<lambda>t. t @ [LF]) texts) = (if texts = [] then [] else join [LF] texts @ [LF])
       \<and> length (concat (map (\<lambda>t. t @ [LF]) texts)) = sum_list (map length texts) + length pages"
proof -
  have len: "length texts = length pages"
    using assms(3) by (metis length_map)
  have "fst (extract_pdf env url st) = pages_text env pages []"
    using assms(1,2) by (simp add: extract_pdf_def write_file_def)
  then show ?thesis
    using pages_text_ok [OF assms(3), of "[]"] concat_newlines_join [of texts]
      length_concat_newlines [of texts] len
    by simp
qed

theorem extract_pdf_pages_witness:
  "urlretrieve sample_env (calls sample_state) ''https://arxiv.org/pdf/1234''
     = (Some ''https://arxiv.org/pdf/1234'', None)
   \<and> PdfReader sample_env ''https://arxiv.org/pdf/1234'' = Inr [''Hello'', ''World'']
   \<and> map (extract_text sample_env) [''Hello'', ''World''] = map Inr [''Hello'', ''World'']
   \<and> fst (extract_pdf sample_env ''https://arxiv.org/pdf/1234'' sample_state)
     = Inr (''Hello'' @ [LF] @ ''World'' @ [LF])
   \<and> length (''Hello'' @ [LF] @ ''World'' @ [LF]) = 10 + (2::nat)"
proof -
  have a: "urlretrieve sample_env (calls sample_state) ''https://arxiv.org/pdf/1234''
     = (Some ''https://arxiv.org/pdf/1234'', None)"
    by (simp add: sample_env_def)
  have b: "PdfReader sample_env ''https://arxiv.org/pdf/1234'' = Inr [''Hello'', ''World'']"
    by (simp add: sample_env_def)
  have c: "map (extract_text sample_env) [''Hello'', ''World''] = map Inr [''Hello'', ''World'']"
    by (simp add: sample_env_def)
  show ?thesis
    using a b c extract_pdf_pages [OF a b c] by simp
qed

subsection \<open>The summarization loop\<close>

lemma summarize_papers_append:
  "summarize_papers env (xs @ ys) st =
     (let (xs1, st1) = summarize_papers env xs st;
          (ys1, st2) = summarize_papers env ys st1
      in (xs1 @ ys1, st2))"
  by (induction xs arbitrary: st) (simp_all add: split_beta)

lemma summarize_paper_summary:
  "\<exists>s. fst (summarize_paper env paper st) = paper(''summary'' \<mapsto> s)
      \<and> (s = ''Paper not available''
         \<or> (\<exists>asked text. generate_content env asked LLM (INSTRUCTION @ text) = Inr s))"
  by (auto simp: summarize_paper_def summarize_def Let_def
      split: option.splits prod.splits sum.splits)

lemma summarize_papers_all2:
  "list_all2 (\<lambda>p q. \<exists>s. q = p(''summary'' \<mapsto> s)
      \<and> (s = ''Paper not available''
         \<or> (\<exists>asked text. generate_content env asked LLM (INSTRUCTION @ text) = Inr s)))
     ps (fst (summarize_papers env ps st))"
proof (induction ps arbitrary: st)
  case Nil
  show ?case by simp
next
  case (Cons p ps)
  have eq: "fst (summarize_papers env (p # ps) st)
              = fst (summarize_paper env p st)
                  # fst (summarize_papers env ps (snd (summarize_paper env p st)))"
    by (simp add: split_beta)
  show ?case
    unfolding eq
    by (rule list.rel_intros(2) [OF summarize_paper_summary Cons.IH])
qed

lemmas sample_defs = sample_env_def sample_state_def sample_papers_def
  sample_bar_def sample_baz_def sample_foo_def

lemmas loop_defs = summarization_def summarize_paper_def summarize_def extract_pdf_def
  write_file_def Let_def LLM_def INSTRUCTION_def

text \<open>
  C1. Whenever anything raised while the summary of a paper is produced (the body of
  \<open>try\<close>, which holds the model call), the paper's summary is the string
  \<open>Paper not available\<close>, and the loop goes on with the papers after it from the
  state the failure left: each of them is processed and gets a summary, so the updated
  list is the papers before, the failed paper and all the papers after.
\<close>

theorem summarization_failure_is_placeholder:
  assumes "papers st = before @ paper # after"
    and "summarize_papers env before st = (before1, st1)"
    and "summarize env paper st1 = (Inl e, st2)"
  shows "papers (summarization env st)
           = before1 @ paper(''summary'' \<mapsto> ''Paper not available'')
               # fst (summarize_papers env after
                        (st2\<lparr>shown := shown st2 @ [Printed ''Generation failed'']\<rparr>))
       \<and> length (fst (summarize_papers env after
                        (st2\<lparr>shown := shown st2 @ [Printed ''Generation failed'']\<rparr>)))
           = length after
       \<and> list_all2 (\<lambda>p q. \<exists>s. q = p(''summary'' \<mapsto> s)) after
           (fst (summarize_papers env after
                        (st2\<lparr>shown := shown st2 @ [Printed ''Generation failed'']\<rparr>)))"
proof -
  let ?st3 = "st2\<lparr>shown := shown st2 @ [Printed ''Generation failed'']\<rparr>"
  have step: "summarize_paper env paper st1
                = (paper(''summary'' \<mapsto> ''Paper not available''), ?st3)"
    using assms(3) by (simp add: summarize_paper_def)
  have "papers (summarization env st)
          = fst (summarize_papers env (before @ paper # after) st)"
    using assms(1) by (simp add: summarization_def split_beta)
  also have "\<dots> = before1 @ paper(''summary'' \<mapsto> ''Paper not available'')
               # fst (summarize_papers env after ?st3)"
    using assms(2) step by (simp add: summarize_papers_append split_beta)
  finally have first: "papers (summarization env st)
          = before1 @ paper(''summary'' \<mapsto> ''Paper not available'')
               # fst (summarize_papers env after ?st3)" .
  have all2: "list_all2 (\<lambda>p q. \<exists>s. q = p(''summary'' \<mapsto> s)) after
           (fst (summarize_papers env after ?st3))"
    using summarize_papers_all2 [of env after ?st3]
    by (rule list_all2_mono) blast
  show ?thesis
    using first all2 list_all2_lengthD [OF all2] by simp
qed

theorem summarization_failure_is_placeholder_witness:
  "papers sample_state = [] @ sample_bar # [sample_baz, sample_foo]
   \<and> summarize_papers sample_env [] sample_state = ([], sample_state)
   \<and> fst (summarize sample_env sample_bar sample_state) = Inl (LibraryError ''quota exceeded'')
   \<and> (papers (summarization sample_env sample_state) ! 0) ''summary'' = Some ''Paper not available''
   \<and> length (papers (summarization sample_env sample_state)) = 3
   \<and> (papers (summarization sample_env sample_state) ! 2) ''summary'' = Some ''A good paper.''"
proof -
  have a: "papers sample_state = [] @ sample_bar # [sample_baz, sample_foo]"
    by (simp add: sample_state_def sample_papers_def)
  have b: "summarize_papers sample_env [] sample_state = ([], sample_state)"
    by simp
  have c: "fst (summarize sample_env sample_bar sample_state) = Inl (LibraryError ''quota exceeded'')"
    by (simp add: sample_defs loop_defs)
  then have c': "summarize sample_env sample_bar sample_state
                   = (Inl (LibraryError ''quota exceeded''),
                      snd (summarize sample_env sample_bar sample_state))"
    by (metis prod.collapse)
  note inst = summarization_failure_is_placeholder [OF a b c']
  have first: "(papers (summarization sample_env sample_state) ! 0) ''summary'' = Some ''Paper not available''"
    using inst by simp
  have len: "length (papers (summarization sample_env sample_state)) = 3"
    using inst by simp
  have last: "(papers (summarization sample_env sample_state) ! 2) ''summary'' = Some ''A good paper.''"
    by (simp add: sample_defs loop_defs)
  show ?thesis
    using a b c first len last by simp
qed

text \<open>
  C9. The loop never raises, so it completes on every list. Afterwards the list is as
  long as before, and the paper at each position is the paper that was there with the
  field summary set, either to the placeholder or to a text the model answered; its
  title and url are unchanged.
\<close>

theorem summarization_keeps_papers:
  "length (papers (summarization env st)) = length (papers st)
   \<and> (\<forall>i < length (papers st).
        (papers (summarization env st) ! i) ''summary'' \<noteq> None
      \<and> (papers (summarization env st) ! i) ''title'' = (papers st ! i) ''title''
      \<and> (papers (summarization env st) ! i) ''url'' = (papers st ! i) ''url''
      \<and> (\<exists>s. papers (summarization env st) ! i = (papers st ! i)(''summary'' \<mapsto> s)
            \<and> (s = ''Paper not available''
               \<or> (\<exists>asked text. generate_content env asked LLM (INSTRUCTION @ text) = Inr s))))"
proof -
  have ps: "papers (summarization env st) = fst (summarize_papers env (papers st) st)"
    by (simp add: summarization_def split_beta)
  note all2 = summarize_papers_all2 [of env "papers st" st, folded ps]
  have len: "length (papers (summarization env st)) = length (papers st)"
    using all2 by (simp add: list_all2_lengthD)
  have "\<exists>s. papers (summarization env st) ! i = (papers st ! i)(''summary'' \<mapsto> s)
            \<and> (s = ''Paper not available''
               \<or> (\<exists>asked text. generate_content env asked LLM (INSTRUCTION @ text) = Inr s))"
    if "i < length (papers st)" for i
    using all2 that by (simp add: list_all2_conv_all_nth)
  then show ?thesis
    using len by fastforce
qed

theorem summarization_keeps_papers_witness:
  "length (papers (summarization sample_env sample_state)) = 3
   \<and> (papers (summarization sample_env sample_state) ! 0) ''summary'' = Some ''Paper not available''
   \<and> (papers (summarization sample_env sample_state) ! 2) ''summary'' = Some ''A good paper.''
   \<and> (papers (summarization sample_env sample_state) ! 2) ''title'' = Some ''Foo''
   \<and> (papers (summarization sample_env sample_state) ! 2) ''url'' = Some ''https://arxiv.org/pdf/1234''"
  using summarization_keeps_papers [of sample_env sample_state]
  by (simp add: sample_defs loop_defs)

subsection \<open>Extraction errors and the prompt\<close>

lemma extract_pdf_calls:
  "calls (snd (extract_pdf env url st)) = calls st @ [Urlretrieve url ''pdf_file.pdf'']"
  by (simp add: extract_pdf_def Let_def split: prod.splits option.splits sum.splits)

lemma extract_pdf_shown:
  "shown (snd (extract_pdf env url st)) = shown st"
  by (simp add: extract_pdf_def Let_def split: prod.splits option.splits sum.splits)

lemma pages_text_raises:
  "map (extract_text env) good = map Inr texts \<Longrightarrow> extract_text env bad = Inl e \<Longrightarrow>
   pages_text env (good @ bad # rest) acc = Inl e"
proof (induction good arbitrary: texts acc)
  case Nil
  then show ?case by simp
next
  case (Cons page good)
  then obtain t ts where ts: "texts = t # ts" "extract_text env page = Inr t"
    "map (extract_text env) good = map Inr ts"
    by (cases texts) auto
  from Cons.IH [OF ts(3) Cons.prems(2)] ts show ?case by simp
qed

lemma extract_pdf_raises:
  assumes "urlretrieve env (calls st) url = (written, Some e)
      \<or> urlretrieve env (calls st) url = (Some bytes, None) \<and> PdfReader env bytes = Inl e
      \<or> urlretrieve env (calls st) url = (Some bytes, None)
          \<and> PdfReader env bytes = Inr (good @ bad # rest)
          \<and> map (extract_text env) good = map Inr texts \<and> extract_text env bad = Inl e"
  shows "fst (extract_pdf env url st) = Inl e"
  using assms pages_text_raises [of env good texts bad e rest "[]"]
  by (auto simp: extract_pdf_def write_file_def)

text \<open>
  C5, as the notebook behaves. When the extraction of a paper raises (the download fails, the file does
  not parse, or a page gives no text), \<open>extract_pdf\<close> handles nothing: the exception
  leaves it after the one download, with no second attempt. In the summarization loop
  the call stands inside \<open>try\<close>, so the loop catches the exception: the model is not
  called for that paper, the paper's summary is the placeholder, \<open>Generation failed\<close>
  is printed, and the loop goes on with the other papers.
\<close>

theorem extraction_error_is_caught_by_loop:
  assumes "paper ''url'' = Some url"
    and "urlretrieve env (calls st) url = (written, Some e)
      \<or> urlretrieve env (calls st) url = (Some bytes, None) \<and> PdfReader env bytes = Inl e
      \<or> urlretrieve env (calls st) url = (Some bytes, None)
          \<and> PdfReader env bytes = Inr (good @ bad # rest)
          \<and> map (extract_text env) good = map Inr texts \<and> extract_text env bad = Inl e"
  shows "fst (extract_pdf env url st) = Inl e
       \<and> calls (snd (extract_pdf env url st)) = calls st @ [Urlretrieve url ''pdf_file.pdf'']
       \<and> fst (summarize env paper st) = Inl e
       \<and> fst (summarize_paper env paper st) = paper(''summary'' \<mapsto> ''Paper not available'')
       \<and> calls (snd (summarize_paper env paper st)) = calls st @ [Urlretrieve url ''pdf_file.pdf'']
       \<and> shown (snd (summarize_paper env paper st)) = shown st @ [Printed ''Generation failed'']
       \<and> fst (summarize_papers env (paper # others) st)
           = paper(''summary'' \<mapsto> ''Paper not available'')
               # fst (summarize_papers env others (snd (summarize_paper env paper st)))"
proof -
  have raised: "fst (extract_pdf env url st) = Inl e"
    using assms(2) by (rule extract_pdf_raises)
  then obtain st1 where x: "extract_pdf env url st = (Inl e, st1)"
    by (metis prod.collapse)
  have st1: "calls st1 = calls st @ [Urlretrieve url ''pdf_file.pdf'']" "shown st1 = shown st"
    using extract_pdf_calls [of env url st] extract_pdf_shown [of env url st] x by simp_all
  have s: "summarize env paper st = (Inl e, st1)"
    using assms(1) x by (simp add: summarize_def)
  have p: "summarize_paper env paper st
             = (paper(''summary'' \<mapsto> ''Paper not available''),
                st1\<lparr>shown := shown st1 @ [Printed ''Generation failed'']\<rparr>)"
    using s by (simp add: summarize_paper_def)
  show ?thesis
    using x s p st1 by (simp add: split_beta)
qed

theorem extraction_error_is_caught_by_loop_witness:
  "sample_baz ''url'' = Some ''https://arxiv.org/pdf/404''
   \<and> urlretrieve sample_env (calls sample_state) ''https://arxiv.org/pdf/404''
       = (None, Some (LibraryError ''HTTP Error 404''))
   \<and> fst (extract_pdf sample_env ''https://arxiv.org/pdf/404'' sample_state)
       = Inl (LibraryError ''HTTP Error 404'')
   \<and> fst (summarize_paper sample_env sample_baz sample_state) ''summary''
       = Some ''Paper not available''
   \<and> calls (snd (summarize_paper sample_env sample_baz sample_state))
       = [Urlretrieve ''https://arxiv.org/pdf/404'' ''pdf_file.pdf'']"
proof -
  have a: "sample_baz ''url'' = Some ''https://arxiv.org/pdf/404''"
    by (simp add: sample_baz_def)
  have b: "urlretrieve sample_env (calls sample_state) ''https://arxiv.org/pdf/404''
             = (None, Some (LibraryError ''HTTP Error 404''))"
    by (simp add: sample_env_def)
  note inst = extraction_error_is_caught_by_loop
    [where paper = sample_baz and env = sample_env and st = sample_state
       and bytes = "[]" and good = "[]" and bad = "[]" and rest = "[]" and texts = "[]"
       and others = "[]", OF a disjI1 [OF b]]
  have c: "calls sample_state = []"
    by (simp add: sample_state_def)
  show ?thesis
    using a b c inst by simp
qed

text \<open>
  In the sample world the download of paper 404 fails. The error leaves \<open>extract_pdf\<close>,
  and the run does not stop there: the paper gets the placeholder like a paper the model
  refused, and the paper after it is summarized.
\<close>

theorem extraction_error_counterexample:
  "fst (extract_pdf sample_env ''https://arxiv.org/pdf/404'' sample_state)
     = Inl (LibraryError ''HTTP Error 404'')
   \<and> fst (summarize_paper sample_env sample_baz sample_state) ''summary''
       = Some ''Paper not available''
   \<and> (papers (summarization sample_env sample_state) ! 1) ''summary''
       = Some ''Paper not available''
   \<and> (papers (summarization sample_env sample_state) ! 2) ''summary''
       = Some ''A good paper.''"
  by (simp add: sample_defs loop_defs)

text \<open>
  C6, with the instruction of the notebook. For every paper whose extraction gives a text, the one request sent to
  the model names the model gemini-1.5-flash and its prompt is the instruction as the
  notebook writes it (no comma, \<open>its\<close> before \<open>strengths\<close>, a space after the full
  stop) followed by the whole extracted text.
\<close>

theorem summarize_prompt:
  assumes "paper ''url'' = Some url"
    and "extract_pdf env url st = (Inr text, st1)"
  shows "summarize env paper st
           = (generate_content env (calls st1) ''gemini-1.5-flash''
                (''Summarize this research article into one paragraph without formatting highlighting its strengths and weaknesses. '' @ text),
              st1\<lparr>calls := calls st @
                 [Urlretrieve url ''pdf_file.pdf'',
                  GenerateContent ''gemini-1.5-flash''
                    (''Summarize this research article into one paragraph without formatting highlighting its strengths and weaknesses. '' @ text)]\<rparr>)"
proof -
  have "calls st1 = calls st @ [Urlretrieve url ''pdf_file.pdf'']"
    using extract_pdf_calls [of env url st] assms(2) by simp
  then show ?thesis
    using assms by (simp add: summarize_def LLM_def INSTRUCTION_def Let_def)
qed


theorem summarize_prompt_witness:
  "sample_foo ''url'' = Some ''https://arxiv.org/pdf/1234''
   \<and> fst (extract_pdf sample_env ''https://arxiv.org/pdf/1234'' sample_state)
       = Inr (''Hello'' @ [LF] @ ''World'' @ [LF])
   \<and> fst (summarize sample_env sample_foo sample_state) = Inr ''A good paper.''
   \<and> calls (snd (summarize sample_env sample_foo sample_state))
       = [Urlretrieve ''https://arxiv.org/pdf/1234'' ''pdf_file.pdf'',
          GenerateContent ''gemini-1.5-flash''
            (''Summarize this research article into one paragraph without formatting highlighting its strengths and weaknesses. Hello''
               @ [LF] @ ''World'' @ [LF])]"
proof -
  have a: "sample_foo ''url'' = Some ''https://arxiv.org/pdf/1234''"
    by (simp add: sample_foo_def)
  have b: "fst (extract_pdf sample_env ''https://arxiv.org/pdf/1234'' sample_state)
             = Inr (''Hello'' @ [LF] @ ''World'' @ [LF])"
    by (simp add: sample_defs extract_pdf_def write_file_def)
  then have b': "extract_pdf sample_env ''https://arxiv.org/pdf/1234'' sample_state
             = (Inr (''Hello'' @ [LF] @ ''World'' @ [LF]),
                snd (extract_pdf sample_env ''https://arxiv.org/pdf/1234'' sample_state))"
    by (metis prod.collapse)
  have c: "calls sample_state = []"
    by (simp add: sample_state_def)
  have d: "calls (snd (extract_pdf sample_env ''https://arxiv.org/pdf/1234'' sample_state))
             = [Urlretrieve ''https://arxiv.org/pdf/1234'' ''pdf_file.pdf'']"
    using extract_pdf_calls [of sample_env "''https://arxiv.org/pdf/1234''" sample_state] c
    by simp
  have e: "generate_content sample_env [Urlretrieve ''https://arxiv.org/pdf/1234'' ''pdf_file.pdf'']
             name prompt = Inr ''A good paper.''" for name prompt
    by (simp add: sample_env_def)
  show ?thesis
    using a b c d e summarize_prompt [where paper = sample_foo, OF a b'] by simp
qed

text \<open>
  The request for the sample paper Foo carries the notebook's instruction, which is not
  the sentence the specification quotes.
\<close>

theorem summarize_prompt_counterexample:
  "calls (snd (summarize sample_env sample_foo sample_state)) ! 1
     = GenerateContent ''gemini-1.5-flash''
         (''Summarize this research article into one paragraph without formatting highlighting its strengths and weaknesses. Hello''
            @ [LF] @ ''World'' @ [LF])
   \<and> calls (snd (summarize sample_env sample_foo sample_state)) ! 1
     \<noteq> GenerateContent ''gemini-1.5-flash''
         (spec_INSTRUCTION @ ''Hello'' @ [LF] @ ''World'' @ [LF])"
  by (simp add: sample_defs loop_defs spec_INSTRUCTION_def)

subsection \<open>Discovery\<close>

lemma replace_prefix:
  "old \<noteq> [] \<Longrightarrow> replace old new (old @ s) = new @ replace old new s"
proof (cases old)
  case Nil
  assume "old \<noteq> []"
  with Nil show ?thesis by simp
next
  case (Cons a list)
  have "replace (a # list) new (a # (list @ s))
          = new @ replace (a # list) new (drop (length (a # list)) (a # (list @ s)))"
    by (subst replace.simps(3)) simp
  then show ?thesis
    using Cons by simp
qed

lemma replace_absent:
  "old \<noteq> [] \<Longrightarrow> \<not> sublist old s \<Longrightarrow> replace old new s = s"
proof (induction s)
  case Nil
  then show ?case by (cases old) simp_all
next
  case (Cons c s)
  from Cons.prems(1) obtain a list where old: "old = a # list"
    by (cases old) auto
  from Cons.prems(2) have no_prefix: "\<not> prefix (a # list) (c # s)"
    using old by auto
  from Cons.prems(2) have "\<not> sublist old s"
    by (simp add: sublist_Cons_right)
  with Cons.IH Cons.prems(1) have ih: "replace (a # list) new s = s"
    using old by simp
  have "replace (a # list) new (c # s) = c # replace (a # list) new s"
    using no_prefix by (subst replace.simps(3)) (simp only: if_False)
  with ih old show ?case
    by simp
qed

lemma discover_well_formed:
  "list_all well_formed h3s \<Longrightarrow>
   \<exists>qs. discover h3s ps = (None, ps @ qs)
      \<and> list_all2 (\<lambda>h3 paper. \<exists>a href. find ''a'' h3 = Some a \<and> getitem a ''href'' = Inr href
            \<and> paper = [''title'' \<mapsto> get_text a,
                       ''url'' \<mapsto> ''https://arxiv.org/pdf'' @ replace ''/papers'' [] href])
          h3s qs"
proof (induction h3s arbitrary: ps)
  case Nil
  show ?case by simp
next
  case (Cons h3 h3s)
  let ?R = "\<lambda>h3 paper. \<exists>a href. find ''a'' h3 = Some a \<and> getitem a ''href'' = Inr href
            \<and> paper = [''title'' \<mapsto> get_text a,
                       ''url'' \<mapsto> ''https://arxiv.org/pdf'' @ replace ''/papers'' [] href]"
  from Cons.prems obtain a href where a: "find ''a'' h3 = Some a" "getitem a ''href'' = Inr href"
    by (auto simp: well_formed_def split: option.splits sum.splits)
  define q :: paper where "q = [''title'' \<mapsto> get_text a,
                       ''url'' \<mapsto> ''https://arxiv.org/pdf'' @ replace ''/papers'' [] href]"
  from Cons.prems have "list_all well_formed h3s" by simp
  from Cons.IH [OF this, of "ps @ [q]"] obtain qs
    where qs: "discover h3s (ps @ [q]) = (None, (ps @ [q]) @ qs)" "list_all2 ?R h3s qs"
    by blast
  have step: "discover (h3 # h3s) ps = discover h3s (ps @ [q])"
    using a by (simp add: q_def Let_def)
  have "?R h3 q"
    using a q_def by blast
  then have "list_all2 ?R (h3 # h3s) (q # qs)"
    using qs(2) by (rule list.rel_intros(2))
  moreover have "discover (h3 # h3s) ps = (None, ps @ q # qs)"
    using step qs(1) by simp
  ultimately show ?case by blast
qed

text \<open>
  C2, with the substitution of the notebook. When the listing page is fetched and every heading h3 of it holds an
  anchor with an href, discovery raises nothing and \<open>papers\<close> has one record per
  heading, in document order: its title is the anchor's text and its url is
  \<open>https://arxiv.org/pdf\<close> followed by the href with every occurrence of \<open>/papers\<close>
  removed. For an href that is \<open>/papers\<close> followed by a rest in which \<open>/papers\<close>
  does not occur, that url is \<open>https://arxiv.org/pdf\<close> followed by the rest.
\<close>

theorem discovery_lists_papers:
  assumes "requests_get env (calls st) BASE_URL = Inr content"
    and "\<forall>h3 \<in> set (find_all [''h3''] (BeautifulSoup env content)). well_formed h3"
  shows "fst (discovery env st) = None
       \<and> length (papers (snd (discovery env st)))
           = length (find_all [''h3''] (BeautifulSoup env content))
       \<and> list_all2
           (\<lambda>h3 paper. \<exists>a href. find ''a'' h3 = Some a \<and> getitem a ''href'' = Inr href
              \<and> paper = [''title'' \<mapsto> get_text a,
                         ''url'' \<mapsto> ''https://arxiv.org/pdf'' @ replace ''/papers'' [] href]
              \<and> (\<forall>rest. href = ''/papers'' @ rest \<and> \<not> sublist ''/papers'' rest
                    \<longrightarrow> paper ''url'' = Some (''https://arxiv.org/pdf'' @ rest)))
           (find_all [''h3''] (BeautifulSoup env content))
           (papers (snd (discovery env st)))"
proof -
  let ?h3s = "find_all [''h3''] (BeautifulSoup env content)"
  let ?R = "\<lambda>h3 paper. \<exists>a href. find ''a'' h3 = Some a \<and> getitem a ''href'' = Inr href
            \<and> paper = [''title'' \<mapsto> get_text a,
                       ''url'' \<mapsto> ''https://arxiv.org/pdf'' @ replace ''/papers'' [] href]"
  have "list_all well_formed ?h3s"
    using assms(2) by (simp add: list_all_iff)
  from discover_well_formed [OF this, of "[]"] obtain qs
    where qs: "discover ?h3s [] = (None, qs)" "list_all2 ?R ?h3s qs"
    by auto
  have d: "discovery env st = (None, st\<lparr>calls := calls st @ [Get BASE_URL], papers := qs\<rparr>)"
    using assms(1) qs(1) by (simp add: discovery_def)
  have suffix: "[''title'' \<mapsto> t, ''url'' \<mapsto> ''https://arxiv.org/pdf'' @ replace ''/papers'' [] href] ''url''
                  = Some (''https://arxiv.org/pdf'' @ rest)"
    if "href = ''/papers'' @ rest" "\<not> sublist ''/papers'' rest" for t href rest
  proof -
    have "replace ''/papers'' [] (''/papers'' @ rest) = replace ''/papers'' [] rest"
      using replace_prefix [of "''/papers''" "[]" rest] by simp
    also have "\<dots> = rest"
      using that(2) by (simp add: replace_absent)
    finally show ?thesis
      using that(1) by simp
  qed
  have "list_all2
           (\<lambda>h3 paper. \<exists>a href. find ''a'' h3 = Some a \<and> getitem a ''href'' = Inr href
              \<and> paper = [''title'' \<mapsto> get_text a,
                         ''url'' \<mapsto> ''https://arxiv.org/pdf'' @ replace ''/papers'' [] href]
              \<and> (\<forall>rest. href = ''/papers'' @ rest \<and> \<not> sublist ''/papers'' rest
                    \<longrightarrow> paper ''url'' = Some (''https://arxiv.org/pdf'' @ rest)))
           ?h3s qs"
    using qs(2)
  proof (rule list_all2_mono)
    fix h3 paper
    assume "\<exists>a href. find ''a'' h3 = Some a \<and> getitem a ''href'' = Inr href
            \<and> paper = [''title'' \<mapsto> get_text a,
                       ''url'' \<mapsto> ''https://arxiv.org/pdf'' @ replace ''/papers'' [] href]"
    then obtain a href where *: "find ''a'' h3 = Some a" "getitem a ''href'' = Inr href"
        "paper = [''title'' \<mapsto> get_text a,
                       ''url'' \<mapsto> ''https://arxiv.org/pdf'' @ replace ''/papers'' [] href]"
      by blast
    have "\<forall>rest. href = ''/papers'' @ rest \<and> \<not> sublist ''/papers'' rest
                    \<longrightarrow> paper ''url'' = Some (''https://arxiv.org/pdf'' @ rest)"
      unfolding *(3) using suffix by blast
    with * show "\<exists>a href. find ''a'' h3 = Some a \<and> getitem a ''href'' = Inr href
              \<and> paper = [''title'' \<mapsto> get_text a,
                         ''url'' \<mapsto> ''https://arxiv.org/pdf'' @ replace ''/papers'' [] href]
              \<and> (\<forall>rest. href = ''/papers'' @ rest \<and> \<not> sublist ''/papers'' rest
                    \<longrightarrow> paper ''url'' = Some (''https://arxiv.org/pdf'' @ rest))"
      by blast
  qed
  then show ?thesis
    using d list_all2_lengthD [OF qs(2)] by simp
qed


theorem discovery_lists_papers_witness:
  "requests_get sample_env (calls sample_state) BASE_URL = Inr ''<h3><a href=/papers/1234>Foo</a></h3>''
   \<and> find_all [''h3''] (BeautifulSoup sample_env ''<h3><a href=/papers/1234>Foo</a></h3>'')
       = [Tag ''h3'' [] [Tag ''a'' [(''href'', ''/papers/1234'')] [NavigableString ''Foo'']]]
   \<and> well_formed (Tag ''h3'' [] [Tag ''a'' [(''href'', ''/papers/1234'')] [NavigableString ''Foo'']])
   \<and> fst (discovery sample_env sample_state) = None
   \<and> length (papers (snd (discovery sample_env sample_state))) = 1
   \<and> (papers (snd (discovery sample_env sample_state)) ! 0) ''title'' = Some ''Foo''
   \<and> (papers (snd (discovery sample_env sample_state)) ! 0) ''url''
       = Some ''https://arxiv.org/pdf/1234''"
proof -
  have a: "requests_get sample_env (calls sample_state) BASE_URL
             = Inr ''<h3><a href=/papers/1234>Foo</a></h3>''"
    by (simp add: sample_env_def)
  have b: "find_all [''h3''] (BeautifulSoup sample_env ''<h3><a href=/papers/1234>Foo</a></h3>'')
             = [Tag ''h3'' [] [Tag ''a'' [(''href'', ''/papers/1234'')] [NavigableString ''Foo'']]]"
    by (simp add: sample_env_def sample_soup_def find_all_def)
  have c: "well_formed (Tag ''h3'' [] [Tag ''a'' [(''href'', ''/papers/1234'')] [NavigableString ''Foo'']])"
    by (simp add: well_formed_def find_def find_all_def)
  have d: "\<forall>h3 \<in> set (find_all [''h3'']
               (BeautifulSoup sample_env ''<h3><a href=/papers/1234>Foo</a></h3>'')). well_formed h3"
    using b c by simp
  note inst = discovery_lists_papers [OF a d]
  have e: "replace ''/papers'' [] ''/papers/1234'' = ''/1234''"
    by simp
  have f: "find ''a'' (Tag ''h3'' [] [Tag ''a'' [(''href'', ''/papers/1234'')] [NavigableString ''Foo'']])
             = Some (Tag ''a'' [(''href'', ''/papers/1234'')] [NavigableString ''Foo''])"
    by (simp add: find_def find_all_def)
  show ?thesis
    using a b c e f inst by (auto simp: list_all2_Cons1)
qed

text \<open>
  For the link \<open>/papers/papers1\<close> the url is \<open>https://arxiv.org/pdf1\<close>: both
  occurrences of \<open>/papers\<close> are gone, not only the leading one.
\<close>

theorem discovery_counterexample:
  "well_formed sample_h3
   \<and> fst (discover [sample_h3] []) = None
   \<and> (snd (discover [sample_h3] []) ! 0) ''title'' = Some ''Qux''
   \<and> (snd (discover [sample_h3] []) ! 0) ''url'' = Some ''https://arxiv.org/pdf1''
   \<and> (snd (discover [sample_h3] []) ! 0) ''url''
       \<noteq> Some (''https://arxiv.org/pdf'' @ spec_path_suffix ''/papers/papers1'')"
  by (simp add: sample_h3_def well_formed_def find_def find_all_def spec_path_suffix_def)

subsection \<open>The sinks\<close>















subsection \<open>The HTML extractor\<close>

lemma is_tag_extract_all: "is_tag names (extract_all names' n) = is_tag names n"
  by (cases n) simp_all

lemma descendants_extract_all:
  "d \<in> set (descendants (extract_all names n)) \<Longrightarrow> \<not> is_tag names d"
proof (induction n arbitrary: d)
  case (NavigableString s)
  then show ?case by simp
next
  case (Tag name attrs children)
  from Tag.prems obtain c where c: "c \<in> set children" "\<not> is_tag names c"
    and d: "d = extract_all names c \<or> d \<in> set (descendants (extract_all names c))"
    by auto
  from d show ?case
  proof
    assume "d = extract_all names c"
    then show ?thesis using c(2) by (simp add: is_tag_extract_all)
  next
    assume "d \<in> set (descendants (extract_all names c))"
    then show ?thesis using Tag.IH c(1) by blast
  qed
qed

lemma find_all_extract_all: "find_all names (extract_all names n) = []"
  by (auto simp: find_all_def filter_empty_conv dest: descendants_extract_all)

lemma set_strip: "set (strip s) \<subseteq> set s"
  by (auto simp: strip_def dest!: set_dropWhileD)

lemma hd_rev_dropWhile_rev:
  "rev (dropWhile P (rev t)) \<noteq> [] \<Longrightarrow> hd (rev (dropWhile P (rev t))) = hd t"
proof (induction t rule: rev_induct)
  case Nil
  then show ?case by simp
next
  case (snoc x xs)
  show ?case
  proof (cases "P x")
    case True
    with snoc.prems have ne: "rev (dropWhile P (rev xs)) \<noteq> []"
      by simp
    then have "xs \<noteq> []"
      by auto
    with snoc.IH [OF ne] True show ?thesis
      by simp
  next
    case False
    then show ?thesis by simp
  qed
qed

lemma strip_strip: "strip (strip s) = strip s"
proof -
  let ?t = "dropWhile isspace s"
  let ?u = "rev (dropWhile isspace (rev ?t))"
  have front: "dropWhile isspace ?u = ?u"
  proof (cases "?u = []")
    case True
    show ?thesis by (simp only: True dropWhile.simps)
  next
    case False
    then have "hd ?u = hd ?t"
      by (rule hd_rev_dropWhile_rev)
    moreover have "?t \<noteq> []"
    proof
      assume "?t = []"
      then have "?u = []"
        by (simp only: rev.simps dropWhile.simps)
      with False show False
        by (rule notE)
    qed
    ultimately have "\<not> isspace (hd ?u)"
      using hd_dropWhile [of isspace s] by simp
    then show ?thesis
      by (simp only: dropWhile_eq_self_iff) simp
  qed
  have "strip ?u = rev (dropWhile isspace (rev (dropWhile isspace ?u)))"
    by (simp only: strip_def)
  also have "\<dots> = rev (dropWhile isspace (rev ?u))"
    by (simp only: front)
  also have "\<dots> = ?u"
    by simp
  finally show ?thesis
    by (simp only: strip_def)
qed

lemma splitlines_from_no_break:
  "\<forall>c \<in> set cur. \<not> is_linebreak c \<Longrightarrow> line \<in> set (splitlines_from cur s) \<Longrightarrow>
   \<forall>c \<in> set line. \<not> is_linebreak c"
proof (induction cur s arbitrary: line rule: splitlines_from.induct)
  case (1 cur)
  then show ?case by (simp split: if_splits)
next
  case (2 cur c)
  then show ?case by (simp split: if_splits)
next
  case (3 cur c d s)
  have empty: "\<forall>c \<in> set []. \<not> is_linebreak c"
    by simp
  show ?case
  proof (cases "c = CR \<and> d = LF")
    case True
    then have "splitlines_from cur (c # d # s) = cur # splitlines_from [] s"
      by (simp only: splitlines_from.simps(3) if_True simp_thms)
    with "3.prems"(2) have "line = cur \<or> line \<in> set (splitlines_from [] s)"
      by simp
    then show ?thesis
      using "3.prems"(1) "3.IH"(1) [OF True empty] by fast
  next
    case False
    show ?thesis
    proof (cases "is_linebreak c")
      case True
      have "splitlines_from cur (c # d # s) = cur # splitlines_from [] (d # s)"
        by (simp only: splitlines_from.simps(3) False True if_False if_True)
      with "3.prems"(2) have "line = cur \<or> line \<in> set (splitlines_from [] (d # s))"
        by simp
      then show ?thesis
        using "3.prems"(1) "3.IH"(2) [OF False True empty] by fast
    next
      case no: False
      have "splitlines_from cur (c # d # s) = splitlines_from (cur @ [c]) (d # s)"
        by (simp only: splitlines_from.simps(3) False no if_False)
      with "3.prems"(2) have line: "line \<in> set (splitlines_from (cur @ [c]) (d # s))"
        by simp
      have "\<forall>x \<in> set (cur @ [c]). \<not> is_linebreak x"
        using "3.prems"(1) no by simp
      from "3.IH"(3) [OF False no this line] show ?thesis .
    qed
  qed
qed

lemma splitlines_no_break:
  "line \<in> set (splitlines s) \<Longrightarrow> \<forall>c \<in> set line. \<not> is_linebreak c"
  using splitlines_from_no_break [of "[]" line s] by (simp add: splitlines_def)

lemma split_from_chars:
  "piece \<in> set (split_from sep cur s) \<Longrightarrow> set piece \<subseteq> set cur \<union> set s"
proof (induction sep cur s arbitrary: piece rule: split_from.induct)
  case (1 sep cur)
  then show ?case by simp
next
  case (2 sep cur c s)
  show ?case
  proof (cases "sep \<noteq> [] \<and> prefix sep (c # s)")
    case True
    with 2(3) have "piece = cur \<or> piece \<in> set (split_from sep [] (drop (length sep) (c # s)))"
      by simp
    then show ?thesis
    proof
      assume "piece = cur"
      then show ?thesis by auto
    next
      assume "piece \<in> set (split_from sep [] (drop (length sep) (c # s)))"
      from 2(1) [OF True this] have "set piece \<subseteq> set (drop (length sep) (c # s))"
        by simp
      also have "\<dots> \<subseteq> set (c # s)"
        by (rule set_drop_subset)
      finally show ?thesis by auto
    qed
  next
    case False
    with 2(3) have "piece \<in> set (split_from sep (cur @ [c]) s)"
      by simp
    from 2(2) [OF False this] show ?thesis
      by auto
  qed
qed

lemma split_chars: "piece \<in> set (split sep s) \<Longrightarrow> set piece \<subseteq> set s"
  using split_from_chars [of piece sep "[]" s] by (simp add: split_def)

lemma splitlines_from_char:
  "\<not> is_linebreak c \<Longrightarrow> splitlines_from cur (c # s) = splitlines_from (cur @ [c]) s"
  by (cases s) (auto simp: is_linebreak_def CR_def)

lemma splitlines_from_chars:
  "\<forall>c \<in> set a. \<not> is_linebreak c \<Longrightarrow> splitlines_from cur (a @ s) = splitlines_from (cur @ a) s"
proof (induction a arbitrary: cur)
  case Nil
  then show ?case by simp
next
  case (Cons c a)
  then show ?case by (simp add: splitlines_from_char)
qed

lemma splitlines_from_LF:
  "splitlines_from cur (LF # s) = cur # splitlines_from [] s"
  by (cases s) (simp_all add: is_linebreak_def LF_def CR_def)

lemma splitlines_join:
  "\<forall>chunk \<in> set chunks. chunk \<noteq> [] \<and> (\<forall>c \<in> set chunk. \<not> is_linebreak c) \<Longrightarrow>
   splitlines (join [LF] chunks) = chunks"
proof (induction chunks)
  case Nil
  show ?case by (simp add: splitlines_def)
next
  case (Cons x chunks)
  from Cons.prems have x: "x \<noteq> []" "\<forall>c \<in> set x. \<not> is_linebreak c"
    by simp_all
  show ?case
  proof (cases chunks)
    case Nil
    have "splitlines_from [] (x @ []) = splitlines_from ([] @ x) []"
      using x(2) by (rule splitlines_from_chars)
    then show ?thesis
      using x(1) Nil by (simp add: splitlines_def)
  next
    case (Cons y ys)
    have "splitlines_from [] (x @ LF # join [LF] chunks)
            = splitlines_from ([] @ x) (LF # join [LF] chunks)"
      using x(2) by (rule splitlines_from_chars)
    also have "\<dots> = x # splitlines_from [] (join [LF] chunks)"
      by (simp add: splitlines_from_LF)
    also have "\<dots> = x # chunks"
      using Cons.IH Cons.prems by (simp add: splitlines_def)
    finally show ?thesis
      using Cons by (simp add: splitlines_def)
  qed
qed

lemma chunk_origin:
  assumes "chunk \<in> set (filter (\<lambda>chunk. chunk \<noteq> [])
             (concat (map (\<lambda>line. map strip (split sep (strip line))) lines)))"
  shows "chunk \<noteq> [] \<and> strip chunk = chunk \<and> (\<exists>line \<in> set lines. set chunk \<subseteq> set line)"
proof -
  from assms have ne: "chunk \<noteq> []"
    and "chunk \<in> set (concat (map (\<lambda>line. map strip (split sep (strip line))) lines))"
    by simp_all
  then obtain line where line: "line \<in> set lines"
    and "chunk \<in> set (map strip (split sep (strip line)))"
    by auto
  then obtain piece where piece: "piece \<in> set (split sep (strip line))"
    and chunk: "chunk = strip piece"
    by auto
  have "set chunk \<subseteq> set piece"
    unfolding chunk by (rule set_strip)
  also have "\<dots> \<subseteq> set (strip line)"
    using piece by (rule split_chars)
  also have "\<dots> \<subseteq> set line"
    by (rule set_strip)
  finally have "\<exists>line \<in> set lines. set chunk \<subseteq> set line"
    using line by (rule_tac x = line in bexI)
  moreover have "strip chunk = chunk"
    unfolding chunk by (rule strip_strip)
  ultimately show ?thesis
    using ne by (intro conjI)
qed

lemma clean_text_lines:
  "splitlines (clean_text text)
     = filter (\<lambda>chunk. chunk \<noteq> [])
         (concat (map (\<lambda>line. map strip (split ''  '' (strip line))) (splitlines text)))
   \<and> (\<forall>line \<in> set (splitlines (clean_text text)). line \<noteq> [] \<and> strip line = line)
   \<and> join [LF] (splitlines (clean_text text)) = clean_text text"
proof -
  let ?chunks = "filter (\<lambda>chunk. chunk \<noteq> [])
         (concat (map (\<lambda>line. map strip (split ''  '' (strip line))) (splitlines text)))"
  have clean: "clean_text text = join [LF] ?chunks"
    by (simp add: clean_text_def Let_def comp_def)
  have chunk: "chunk \<noteq> [] \<and> (\<forall>c \<in> set chunk. \<not> is_linebreak c)"
    and stripped: "chunk \<noteq> [] \<and> strip chunk = chunk"
    if "chunk \<in> set ?chunks" for chunk
  proof -
    note origin = chunk_origin [OF that]
    then obtain line where "line \<in> set (splitlines text)" "set chunk \<subseteq> set line"
      by (elim conjE bexE)
    then have "\<forall>c \<in> set chunk. \<not> is_linebreak c"
      using splitlines_no_break [of line "text"] by (meson subsetD)
    with origin show "chunk \<noteq> [] \<and> (\<forall>c \<in> set chunk. \<not> is_linebreak c)"
      by (intro conjI) (elim conjE)
    from origin show "chunk \<noteq> [] \<and> strip chunk = chunk"
      by (elim conjE) (intro conjI)
  qed
  have "\<forall>chunk \<in> set ?chunks. chunk \<noteq> [] \<and> (\<forall>c \<in> set chunk. \<not> is_linebreak c)"
    by (intro ballI) (rule chunk)
  then have lines: "splitlines (join [LF] ?chunks) = ?chunks"
    by (rule splitlines_join)
  have a: "splitlines (clean_text text) = ?chunks"
    by (simp only: clean lines)
  have b: "\<forall>line \<in> set (splitlines (clean_text text)). line \<noteq> [] \<and> strip line = line"
    unfolding a by (intro ballI) (rule stripped)
  have c: "join [LF] (splitlines (clean_text text)) = clean_text text"
    by (simp only: clean lines)
  show ?thesis
    by (intro conjI) (rule a b c)+
qed

text \<open>
  C7. When the page is fetched, \<open>extract_paper\<close> returns the cleaned text of the tree
  from which every script and style element is gone (none is left in it). The lines of
  the result are the pieces of the lines of that text, cut at every run of two blanks,
  each piece stripped and the empty ones dropped: every line of the result is non-empty
  and has no whitespace at either end, and the result is its lines joined by newlines.
\<close>

theorem extract_paper_lines:
  assumes "urlopen_read env (calls st) url = Inr html"
    and "soup = extract_all [''script'', ''style''] (BeautifulSoup env html)"
    and "text = clean_text (get_text soup)"
  shows "fst (extract_paper env url st) = Inr text
       \<and> find_all [''script'', ''style''] soup = []
       \<and> splitlines text
           = filter (\<lambda>chunk. chunk \<noteq> [])
               (concat (map (\<lambda>line. map strip (split ''  '' (strip line)))
                  (splitlines (get_text soup))))
       \<and> (\<forall>line \<in> set (splitlines text). line \<noteq> [] \<and> strip line = line)
       \<and> join [LF] (splitlines text) = text"
proof -
  have first: "fst (extract_paper env url st) = Inr text"
    using assms by (simp add: extract_paper_def)
  have second: "find_all [''script'', ''style''] soup = []"
    unfolding assms(2) by (rule find_all_extract_all)
  note lines = clean_text_lines [of "get_text soup", folded assms(3)]
  show ?thesis
    by (intro conjI)
      (rule first second lines [THEN conjunct1] lines [THEN conjunct2, THEN conjunct1]
        lines [THEN conjunct2, THEN conjunct2])+
qed



theorem extract_paper_lines_witness:
  "urlopen_read sample_env (calls sample_state) ''https://example.org/page'' = Inr ''<page>''
   \<and> fst (extract_paper sample_env ''https://example.org/page'' sample_state)
       = Inr (''Hello'' @ [LF] @ ''big'' @ [LF] @ ''world'' @ [LF] @ ''bye'')
   \<and> find_all [''script'', ''style''] (extract_all [''script'', ''style''] sample_page) = []
   \<and> splitlines (''Hello'' @ [LF] @ ''big'' @ [LF] @ ''world'' @ [LF] @ ''bye'')
       = [''Hello'', ''big'', ''world'', ''bye'']"
proof -
  have a: "urlopen_read sample_env (calls sample_state) ''https://example.org/page'' = Inr ''<page>''"
    by (simp add: sample_env_def)
  have b: "extract_all [''script'', ''style''] sample_page
             = extract_all [''script'', ''style''] (BeautifulSoup sample_env ''<page>'')"
    by (simp add: sample_env_def)
  have c: "''Hello'' @ [LF] @ ''big'' @ [LF] @ ''world'' @ [LF] @ ''bye''
             = clean_text (get_text (extract_all [''script'', ''style''] sample_page))"
    by code_simp
  have d: "splitlines (''Hello'' @ [LF] @ ''big'' @ [LF] @ ''world'' @ [LF] @ ''bye'')
             = [''Hello'', ''big'', ''world'', ''bye'']"
    by code_simp
  note inst = extract_paper_lines [OF a b c]
  show ?thesis
    by (intro conjI) (rule a d inst [THEN conjunct1] inst [THEN conjunct2, THEN conjunct1])+
qed

end
